theory Spec2Isabelle
  imports Main "HOL-Library.Word"
begin

section \<open>Voice-isolation GUI (main.py): the capture pipeline and its controls\<close>

text \<open>
  The module keeps one global flag \<open>running\<close>, one status label, and launches a daemon
  thread running \<open>capture_audio\<close> from the Start button. The two button callbacks run on
  the GUI thread; every capture thread runs concurrently with it. The model is a
  small-step machine over the shared state: one step per statement of
  \<open>capture_audio\<close> that touches shared state or the audio device, and one step per
  button callback. The audio library is outside the repository, so each call into it
  takes its outcome (a returned buffer, or a raised error) from the schedule.
\<close>

subsection \<open>Audio configuration (main.py, lines 14-17)\<close>

type_synonym bytes = "8 word list"

definition CHANNELS :: nat where
  "CHANNELS = 2"

definition RATE :: nat where
  "RATE = 16000"

definition CHUNK :: nat where
  "CHUNK = 1024"

text \<open>\<open>FORMAT = pyaudio.paInt16\<close>: two bytes per sample, as \<open>play_audio\<close> passes
  \<open>bytes_per_sample=2\<close>.\<close>

definition bytes_per_sample :: nat where
  "bytes_per_sample = 2"

text \<open>The buffer that \<open>stream.read(CHUNK)\<close> delivers: \<open>CHUNK\<close> samples per channel.\<close>

definition frame_bytes :: nat where
  "frame_bytes = CHUNK * CHANNELS * bytes_per_sample"

definition valid_Frame :: "bytes \<Rightarrow> bool" where
  "valid_Frame f = (length f = frame_bytes)"

subsection \<open>Errors\<close>

text \<open>
  \<open>DeviceError\<close> stands for the exception the audio library raises from \<open>p.open\<close>,
  \<open>stream.read\<close>, \<open>wave_obj.play\<close> or the closing calls of lines 81-83;
  \<open>ValueError\<close> is Python's. \<open>FormatError\<close> is
  raised nowhere in the source; it is the error the specification names for a buffer
  of the wrong length.
\<close>

datatype error = DeviceError | FormatError | ValueError

subsection \<open>The filter and the playback (main.py, lines 86-93)\<close>

definition process_audio :: "bytes \<Rightarrow> bytes" where
  "process_audio audio_data = audio_data"

text \<open>The specification's FilterStage, following its words: a buffer of exactly
  \<open>frameSize * channels * (bitsPerSample/8)\<close> bytes is accepted, any other length is
  rejected as \<open>FormatError\<close>.\<close>

definition spec_FilterStage_apply :: "bytes \<Rightarrow> error + bytes" where
  "spec_FilterStage_apply f = (if length f = frame_bytes then Inr f else Inl FormatError)"

subsection \<open>Shared state and capture threads\<close>

datatype status = StatusIdle | StatusRunning

text \<open>
  Where a capture thread stands in \<open>capture_audio\<close>:
  \<open>Begin\<close> before line 68 (\<open>running = True\<close>), \<open>Open\<close> before lines 69-72
  (\<open>PyAudio()\<close>, \<open>p.open\<close>), \<open>Label\<close> before line 74, \<open>Check\<close> at the loop test on
  line 76, \<open>Read\<close> before line 77, \<open>Filter b\<close> before line 78 holding the buffer read,
  \<open>Play b\<close> before line 79 holding the filtered buffer, \<open>Close\<close> before lines 81-83,
  \<open>Relabel\<close> before line 84, \<open>Done\<close> after the function returned, and \<open>Crashed e\<close>
  after an exception left the function (nothing in \<open>capture_audio\<close> catches one, so
  it ends the thread).
\<close>

datatype pc =
    Begin
  | Open
  | Label
  | Check
  | Read
  | Filter bytes
  | Play bytes
  | Close
  | Relabel
  | Done
  | Crashed error

record state =
  running :: bool
  status_label :: status
  threads :: "pc list"
  opened :: nat
  closed :: nat
  played :: "bytes list"

text \<open>Module start: line 24 sets \<open>running = True\<close>, line 131 creates the label with the
  text "Status: Idle"; no thread exists, no stream was opened, nothing was played.\<close>

definition init_state :: state where
  "init_state = \<lparr>running = True, status_label = StatusIdle, threads = [],
     opened = 0, closed = 0, played = []\<rparr>"

text \<open>The outcome of one call into the audio library.\<close>

datatype dev = Returns bytes | Raises

definition set_pc :: "nat \<Rightarrow> pc \<Rightarrow> state \<Rightarrow> state" where
  "set_pc i p s = s\<lparr>threads := (threads s)[i := p]\<rparr>"

text \<open>One step of thread \<open>i\<close>, standing at the given place of \<open>capture_audio\<close>.\<close>

fun capture_audio :: "nat \<Rightarrow> dev \<Rightarrow> pc \<Rightarrow> state \<Rightarrow> state" where
  "capture_audio i d Begin s = set_pc i Open (s\<lparr>running := True\<rparr>)"
| "capture_audio i d Open s =
     (case d of
        Raises \<Rightarrow> set_pc i (Crashed DeviceError) s
      | Returns b \<Rightarrow> set_pc i Label (s\<lparr>opened := opened s + 1\<rparr>))"
| "capture_audio i d Label s = set_pc i Check (s\<lparr>status_label := StatusRunning\<rparr>)"
| "capture_audio i d Check s = set_pc i (if running s then Read else Close) s"
| "capture_audio i d Read s =
     (case d of
        Raises \<Rightarrow> set_pc i (Crashed DeviceError) s
      | Returns b \<Rightarrow> set_pc i (Filter b) s)"
| "capture_audio i d (Filter b) s = set_pc i (Play (process_audio b)) s"
| "capture_audio i d (Play b) s =
     (case d of
        Raises \<Rightarrow> set_pc i (Crashed DeviceError) s
      | Returns r \<Rightarrow> set_pc i Check (s\<lparr>played := played s @ [b]\<rparr>))"
| "capture_audio i d Close s =
     (case d of
        Raises \<Rightarrow> set_pc i (Crashed DeviceError) s
      | Returns r \<Rightarrow> set_pc i Relabel (s\<lparr>closed := closed s + 1\<rparr>))"
| "capture_audio i d Relabel s = set_pc i Done (s\<lparr>status_label := StatusIdle\<rparr>)"
| "capture_audio i d Done s = s"
| "capture_audio i d (Crashed e) s = s"

text \<open>The Start button (lines 95-99): return when the flag is set, launch a thread
  otherwise. The new thread has not run yet: it stands at \<open>Begin\<close>.\<close>

definition start_voice_filtering :: "state \<Rightarrow> state" where
  "start_voice_filtering s =
     (if running s then s else s\<lparr>threads := threads s @ [Begin]\<rparr>)"

text \<open>The Stop button (lines 101-105).\<close>

definition stop_voice_filtering :: "state \<Rightarrow> state" where
  "stop_voice_filtering s = s\<lparr>running := False, status_label := StatusIdle\<rparr>"

text \<open>A schedule is a list of events: a button callback, or one step of the thread
  launched \<open>i\<close>-th with the outcome of its library call (ignored by the steps that make
  none). A step of a thread that was never launched does nothing.\<close>

datatype event = Start | Stop | Step nat dev

fun step :: "event \<Rightarrow> state \<Rightarrow> state" where
  "step Start s = start_voice_filtering s"
| "step Stop s = stop_voice_filtering s"
| "step (Step i d) s =
     (if i < length (threads s) then capture_audio i d (threads s ! i) s else s)"

fun run :: "event list \<Rightarrow> state \<Rightarrow> state" where
  "run [] s = s"
| "run (e # es) s = run es (step e s)"

text \<open>A thread holds an open stream between its \<open>p.open\<close> and its \<open>stream.close\<close>.\<close>

fun holds_stream :: "pc \<Rightarrow> bool" where
  "holds_stream Label = True"
| "holds_stream Check = True"
| "holds_stream Read = True"
| "holds_stream (Filter b) = True"
| "holds_stream (Play b) = True"
| "holds_stream Close = True"
| "holds_stream p = False"

text \<open>The specification's CaptureState read off the code's state, following its words:
  Running after Start until Stop, Stopping after Stop while a capture loop still holds
  the device.\<close>

definition spec_Running :: "state \<Rightarrow> bool" where
  "spec_Running s = (running s \<and> list_ex holds_stream (threads s))"

definition spec_Stopping :: "state \<Rightarrow> bool" where
  "spec_Stopping s = (\<not> running s \<and> list_ex holds_stream (threads s))"

text \<open>A thread is in a session once it ran its first statement (line 68) and until it
  leaves the loop: it is about to open the device, or holds it and has not yet begun
  to close it.\<close>

fun in_session :: "pc \<Rightarrow> bool" where
  "in_session Open = True"
| "in_session Label = True"
| "in_session Check = True"
| "in_session Read = True"
| "in_session (Filter b) = True"
| "in_session (Play b) = True"
| "in_session p = False"

text \<open>A thread is working on a frame between the read and the end of the playback.\<close>

fun mid_frame :: "pc \<Rightarrow> bool" where
  "mid_frame Read = True"
| "mid_frame (Filter b) = True"
| "mid_frame (Play b) = True"
| "mid_frame p = False"

text \<open>How many steps of its own a thread needs to return while the flag is cleared and
  its library calls succeed. A thread at \<open>Begin\<close> sets the flag itself, so the count
  says nothing about it; a thread that returned or was ended by an error takes no
  step.\<close>

fun steps_to_exit :: "pc \<Rightarrow> nat" where
  "steps_to_exit Open = 5"
| "steps_to_exit Label = 4"
| "steps_to_exit Check = 3"
| "steps_to_exit Read = 6"
| "steps_to_exit (Filter b) = 5"
| "steps_to_exit (Play b) = 4"
| "steps_to_exit Close = 2"
| "steps_to_exit Relabel = 1"
| "steps_to_exit p = 0"

fun ended_by_error :: "pc \<Rightarrow> bool" where
  "ended_by_error (Crashed e) = True"
| "ended_by_error p = False"

text \<open>The steps of thread \<open>i\<close> in a schedule.\<close>

fun is_step_of :: "nat \<Rightarrow> event \<Rightarrow> bool" where
  "is_step_of i (Step j d) = (i = j)"
| "is_step_of i e = False"

definition steps_of :: "nat \<Rightarrow> event list \<Rightarrow> nat" where
  "steps_of i evs = length (filter (is_step_of i) evs)"

text \<open>The frames a thread in a session still plays when the flag is cleared under it:
  the one it is working on, none otherwise. The list holds the buffers its library
  calls return from then on (the first is the pending read's).\<close>

fun frames_after_stop :: "pc \<Rightarrow> bytes list \<Rightarrow> bytes list" where
  "frames_after_stop Read (b # bs) = [process_audio b]"
| "frames_after_stop (Filter b) bs = [process_audio b]"
| "frames_after_stop (Play b) bs = [b]"
| "frames_after_stop p bs = []"

subsection \<open>Concrete schedules\<close>

definition silence :: bytes where
  "silence = replicate frame_bytes 0"

text \<open>Stop, then Start twice before the first thread ran; both threads then enter the
  loop.\<close>

definition two_sessions :: "event list" where
  "two_sessions =
     [Stop, Start, Start,
      Step 0 (Returns []), Step 0 (Returns []), Step 0 (Returns []), Step 0 (Returns []),
      Step 1 (Returns []), Step 1 (Returns []), Step 1 (Returns []), Step 1 (Returns [])]"

text \<open>Stop, Start, and the thread enters the loop and is about to read.\<close>

definition capturing_state :: state where
  "capturing_state =
     run [Stop, Start,
          Step 0 (Returns []), Step 0 (Returns []), Step 0 (Returns []), Step 0 (Returns [])]
       init_state"

text \<open>Stop, Start, and the thread has opened the device and is about to set the
  label.\<close>

definition labelling_state :: state where
  "labelling_state =
     run [Stop, Start, Step 0 (Returns []), Step 0 (Returns [])] init_state"

text \<open>The capturing thread about to read, and Stop is pressed again.\<close>

definition stopping_state :: state where
  "stopping_state =
     run [Stop, Start,
          Step 0 (Returns []), Step 0 (Returns []), Step 0 (Returns []), Step 0 (Returns []),
          Stop] init_state"

text \<open>Start with the flag cleared, and the device open fails.\<close>

definition no_device :: "event list" where
  "no_device = [Start, Step 0 (Returns []), Step 0 Raises]"

text \<open>A session that reaches the loop, whose first read fails.\<close>

definition read_fails :: "event list" where
  "read_fails =
     [Stop, Start,
      Step 0 (Returns []), Step 0 (Returns []), Step 0 (Returns []), Step 0 (Returns []),
      Step 0 Raises]"

text \<open>Stop, Start, and Stop again before the launched thread ran; the thread then runs
  into the loop and plays two frames.\<close>

definition lost_stop :: "event list" where
  "lost_stop =
     [Stop, Start, Stop,
      Step 0 (Returns []), Step 0 (Returns []), Step 0 (Returns []), Step 0 (Returns []),
      Step 0 (Returns silence), Step 0 (Returns []), Step 0 (Returns []), Step 0 (Returns []),
      Step 0 (Returns silence), Step 0 (Returns []), Step 0 (Returns [])]"

text \<open>After Stop the thread finishes its frame and leaves the loop, and the closing
  calls fail.\<close>

definition close_fails :: "event list" where
  "close_fails =
     [Step 0 (Returns silence), Step 0 (Returns []), Step 0 (Returns []), Step 0 (Returns []),
      Step 0 Raises]"

section \<open>Protobuf wrapping (utils/utils.py, lines 270-299)\<close>

text \<open>Python values by their type. A float is carried as the 64-bit pattern of the
  double it is.\<close>

datatype pytype = TBool | TInt | TFloat | TStr | TNoneType | TBytes

datatype pyvalue =
    PyBool bool
  | PyInt int
  | PyFloat "64 word"
  | PyStr string
  | PyNone
  | PyBytes bytes

fun type_of :: "pyvalue \<Rightarrow> pytype" where
  "type_of (PyBool b) = TBool"
| "type_of (PyInt n) = TInt"
| "type_of (PyFloat x) = TFloat"
| "type_of (PyStr t) = TStr"
| "type_of PyNone = TNoneType"
| "type_of (PyBytes b) = TBytes"

text \<open>\<open>isinstance\<close>: the type itself, or a subclass of it; \<open>bool\<close> is a subclass of
  \<open>int\<close>.\<close>

definition isinstance :: "pyvalue \<Rightarrow> pytype \<Rightarrow> bool" where
  "isinstance v t = (type_of v = t \<or> (type_of v = TBool \<and> t = TInt))"

text \<open>The value of an instance of \<open>int\<close> as an integer (\<open>True\<close> is 1, \<open>False\<close> is 0).\<close>

fun int_value :: "pyvalue \<Rightarrow> int" where
  "int_value (PyInt n) = n"
| "int_value (PyBool b) = (if b then 1 else 0)"
| "int_value v = 0"

fun bool_value :: "pyvalue \<Rightarrow> bool" where
  "bool_value (PyBool b) = b"
| "bool_value v = False"

fun float_value :: "pyvalue \<Rightarrow> 64 word" where
  "float_value (PyFloat x) = x"
| "float_value v = 0"

fun str_value :: "pyvalue \<Rightarrow> string" where
  "str_value (PyStr t) = t"
| "str_value v = []"

text \<open>
  The wrapper messages of \<open>wrappers_pb2\<close> and \<open>any_pb2.Any\<close> with what was packed into
  it. The messages belong to the protobuf library, outside the repository. An integer
  field holds the values of its width only: constructing an \<open>Int64Value\<close> or an
  \<open>Int32Value\<close> with a value outside it raises \<open>ValueError\<close>. A \<open>FloatValue\<close> stores a
  32-bit float; the library's conversion of the double is a parameter of the model.
\<close>

datatype wrapper =
    BoolValue bool
  | Int64Value int
  | Int32Value int
  | FloatValue "32 word"
  | StringValue string

definition new_Int64Value :: "int \<Rightarrow> error + wrapper" where
  "new_Int64Value n =
     (if - 9223372036854775808 \<le> n \<and> n \<le> 9223372036854775807
      then Inr (Int64Value n) else Inl ValueError)"

definition new_Int32Value :: "int \<Rightarrow> error + wrapper" where
  "new_Int32Value n =
     (if - 2147483648 \<le> n \<and> n \<le> 2147483647
      then Inr (Int32Value n) else Inl ValueError)"

datatype any_pb2 = Any "wrapper option"

fun Pack :: "wrapper \<Rightarrow> any_pb2 \<Rightarrow> any_pb2" where
  "Pack w (Any m) = Any (Some w)"

text \<open>The function, with the library's double-to-float32 conversion as first argument.
  An exception raised while a wrapper is constructed leaves the function.\<close>

definition create_protobuf_any_value ::
    "(64 word \<Rightarrow> 32 word) \<Rightarrow> pyvalue \<Rightarrow> error + any_pb2" where
  "create_protobuf_any_value float32 v =
     (if isinstance v TBool then Inr (Pack (BoolValue (bool_value v)) (Any None))
      else if isinstance v TInt then
        (case (if int_value v > 2147483647 \<or> int_value v < - 2147483648
               then new_Int64Value (int_value v)
               else new_Int32Value (int_value v)) of
           Inl e \<Rightarrow> Inl e
         | Inr w \<Rightarrow> Inr (Pack w (Any None)))
      else if isinstance v TFloat then
        Inr (Pack (FloatValue (float32 (float_value v))) (Any None))
      else if isinstance v TStr then Inr (Pack (StringValue (str_value v)) (Any None))
      else Inl ValueError)"

text \<open>No evaluation below packs a float, so none calls the conversion; this function
  only fills its place where a statement has to be closed.\<close>

definition float32_unused :: "64 word \<Rightarrow> 32 word" where
  "float32_unused x = 0"

fun packed :: "error + any_pb2 \<Rightarrow> wrapper option" where
  "packed (Inr (Any m)) = m"
| "packed (Inl e) = None"

fun is_Int64Value :: "wrapper option \<Rightarrow> bool" where
  "is_Int64Value (Some (Int64Value n)) = True"
| "is_Int64Value w = False"

fun is_Int32Value :: "wrapper option \<Rightarrow> bool" where
  "is_Int32Value (Some (Int32Value n)) = True"
| "is_Int32Value w = False"

section \<open>Evaluating the concrete schedules\<close>

lemma capturing_state_eq:
  "capturing_state = \<lparr>running = True, status_label = StatusRunning, threads = [Read],
     opened = 1, closed = 0, played = []\<rparr>"
  by (simp add: capturing_state_def init_state_def start_voice_filtering_def
      stop_voice_filtering_def set_pc_def)

lemma stopping_state_eq:
  "stopping_state = \<lparr>running = False, status_label = StatusIdle, threads = [Read],
     opened = 1, closed = 0, played = []\<rparr>"
  by (simp add: stopping_state_def init_state_def start_voice_filtering_def
      stop_voice_filtering_def set_pc_def)

lemma labelling_state_eq:
  "labelling_state = \<lparr>running = True, status_label = StatusIdle, threads = [Label],
     opened = 1, closed = 0, played = []\<rparr>"
  by (simp add: labelling_state_def init_state_def start_voice_filtering_def
      stop_voice_filtering_def set_pc_def)

section \<open>Properties of the filter\<close>

text \<open>
  C6: for every valid Frame (a buffer of exactly frameSize * channels *
  (bitsPerSample/8) bytes), the default identity filter returns a frame of the same
  length and the same byte content.
\<close>

theorem process_audio_roundtrip:
  "valid_Frame f \<Longrightarrow> length (process_audio f) = length f \<and> process_audio f = f"
  by (simp add: process_audio_def)

theorem process_audio_roundtrip_witness:
  "valid_Frame silence \<and> length (process_audio silence) = length silence
     \<and> process_audio silence = silence"
proof -
  have v: "valid_Frame silence"
    by (simp add: valid_Frame_def silence_def)
  from process_audio_roundtrip [OF v] v show ?thesis
    by simp
qed

text \<open>
  C7, as the specification states it: a buffer is accepted if and only if its length is
  frameSize * channels * (bitsPerSample/8), and any other length is rejected with
  FormatError. \<open>process_audio\<close> checks no length: the empty buffer, which the
  specification's FilterStage rejects, is returned.
\<close>

theorem wrong_length_not_rejected:
  "spec_FilterStage_apply [] = Inl FormatError
     \<and> Inr (process_audio []) \<noteq> spec_FilterStage_apply []"
  by (simp add: spec_FilterStage_apply_def process_audio_def frame_bytes_def CHUNK_def
      CHANNELS_def bytes_per_sample_def)

text \<open>
  C7, amended: \<open>process_audio\<close> accepts a buffer of every length and returns it
  unchanged, raising nothing; it agrees with the specification's FilterStage exactly
  on the buffers of frameSize * channels * (bitsPerSample/8) bytes.
\<close>

theorem process_audio_accepts_every_length:
  "process_audio f = f
     \<and> (Inr (process_audio f) = spec_FilterStage_apply f \<longleftrightarrow> valid_Frame f)"
  by (simp add: spec_FilterStage_apply_def process_audio_def valid_Frame_def)

section \<open>Properties of Start and Stop\<close>

text \<open>
  C1, evaluated on the code. The specification has the capture state created Idle,
  Running after Start, and never two Running sessions at once. At process start the
  label reads Idle but the flag is set, so Start changes nothing and no loop holds the
  device afterwards; and after Stop, two Starts in a row launch two threads that
  both open the device and both stand inside the capture loop.
\<close>

theorem two_running_sessions_reachable:
  "running init_state \<and> status_label init_state = StatusIdle
     \<and> run [Start] init_state = init_state
     \<and> spec_Running (run [Start] init_state) = False
     \<and> threads (run two_sessions init_state) = [Read, Read]
     \<and> opened (run two_sessions init_state) = 2
     \<and> closed (run two_sessions init_state) = 0
     \<and> running (run two_sessions init_state)"
  by (simp add: two_sessions_def init_state_def start_voice_filtering_def
      stop_voice_filtering_def set_pc_def spec_Running_def)

text \<open>
  C2, as the specification states it: in every state that is Running or Stopping, a
  further Start changes nothing, the device stays opened once and no second loop is
  launched. In \<open>stopping_state\<close> the flag was cleared by Stop while the loop still holds
  the device; Start there launches a second thread, which sets the flag again and
  opens the device a second time.
\<close>

theorem start_while_stopping_launches_second_loop:
  "spec_Stopping stopping_state
     \<and> threads (start_voice_filtering stopping_state) = [Read, Begin]
     \<and> opened stopping_state = 1
     \<and> opened (run [Start, Step 1 (Returns []), Step 1 (Returns [])] stopping_state) = 2
     \<and> running (run [Start, Step 1 (Returns []), Step 1 (Returns [])] stopping_state)"
  by (simp add: stopping_state_eq spec_Stopping_def start_voice_filtering_def set_pc_def)

lemma run_replicate_Start: "running s \<Longrightarrow> run (replicate n Start) s = s"
  by (induction n) (simp_all add: start_voice_filtering_def)

lemma step_keeps_set:
  assumes "running s" and "e \<noteq> Stop"
  shows "running (step e s) \<and> length (threads (step e s)) = length (threads s)"
proof (cases e)
  case Start
  with assms show ?thesis by (simp add: start_voice_filtering_def)
next
  case Stop
  with assms show ?thesis by simp
next
  case (Step i d)
  with assms(1) show ?thesis
    by (cases "threads s ! i"; cases d) (simp_all add: set_pc_def)
qed

lemma run_keeps_set:
  "running s \<Longrightarrow> Stop \<notin> set evs \<Longrightarrow>
     running (run evs s) \<and> length (threads (run evs s)) = length (threads s)"
proof (induction evs arbitrary: s)
  case Nil
  then show ?case by simp
next
  case (Cons e es)
  then have "e \<noteq> Stop" by auto
  with Cons.prems step_keeps_set [of s e]
  have "running (step e s)" "length (threads (step e s)) = length (threads s)" by simp_all
  with Cons show ?case by simp
qed

text \<open>
  C2, amended: in every state whose \<open>running\<close> flag is set, Start changes nothing
  however often it is called: the flag stays set, no thread is launched and no device
  is opened. As long as Stop is not pressed, the flag stays set and no further capture
  thread is launched, however the Starts interleave with the steps of the capture
  threads.
\<close>

theorem start_noop_while_flag_set:
  "running s \<Longrightarrow>
     start_voice_filtering s = s \<and> run (replicate n Start) s = s
     \<and> (Stop \<notin> set evs \<longrightarrow>
          running (run evs s) \<and> length (threads (run evs s)) = length (threads s))"
  using run_replicate_Start [of s n] run_keeps_set [of s evs]
  by (simp add: start_voice_filtering_def)

theorem start_noop_while_flag_set_witness:
  "running capturing_state
     \<and> start_voice_filtering capturing_state = capturing_state
     \<and> run (replicate 2 Start) capturing_state = capturing_state
     \<and> running (run [Start, Step 0 (Returns silence), Start] capturing_state)
     \<and> length (threads (run [Start, Step 0 (Returns silence), Start] capturing_state)) = 1"
proof -
  have r: "running capturing_state"
    by (simp add: capturing_state_eq)
  have h: "Stop \<notin> set [Start, Step 0 (Returns silence), Start]"
    by simp
  have l: "length (threads capturing_state) = 1"
    by (simp add: capturing_state_eq)
  from start_noop_while_flag_set [OF r, of 2 "[Start, Step 0 (Returns silence), Start]"] h
  have "start_voice_filtering capturing_state = capturing_state"
    and "run (replicate 2 Start) capturing_state = capturing_state"
    and "running (run [Start, Step 0 (Returns silence), Start] capturing_state)"
    and "length (threads (run [Start, Step 0 (Returns silence), Start] capturing_state))
      = length (threads capturing_state)"
    by blast+
  with r l show ?thesis by simp
qed

text \<open>
  C8, evaluated on the code. The specification has Stop a no-op when the controller is
  already Idle, and has the controller created Idle at process start. At process start
  the label reads Idle and no thread exists, but the flag is set: Stop clears it, so
  the state is changed, and the change shows: before the Stop a Start launches nothing,
  after it a Start launches a thread.
\<close>

theorem stop_at_process_start_not_noop:
  "status_label init_state = StatusIdle \<and> threads init_state = []
     \<and> stop_voice_filtering init_state \<noteq> init_state
     \<and> running (stop_voice_filtering init_state) = False
     \<and> threads (run [Start] init_state) = []
     \<and> threads (run [Stop, Start] init_state) = [Begin]"
  by (simp add: init_state_def start_voice_filtering_def stop_voice_filtering_def)

lemma run_without_Stop: "Stop \<notin> set evs \<Longrightarrow> run evs init_state = init_state"
proof (induction evs)
  case Nil
  show ?case by simp
next
  case (Cons e es)
  then have "step e init_state = init_state"
    by (cases e) (simp_all add: start_voice_filtering_def init_state_def)
  with Cons show ?case by simp
qed

text \<open>
  C9: at process start the flag is set, so the first Start returns at once: no thread
  is launched and no device is opened. Whatever is scheduled, as long as Stop was never
  pressed the state is the initial one; after one Stop, Start launches a thread.
\<close>

theorem first_start_returns_immediately:
  "running init_state
     \<and> start_voice_filtering init_state = init_state
     \<and> (Stop \<notin> set evs \<longrightarrow> run evs init_state = init_state)
     \<and> threads (start_voice_filtering (stop_voice_filtering init_state)) = [Begin]"
  using run_without_Stop [of evs]
  by (simp add: start_voice_filtering_def stop_voice_filtering_def init_state_def)

theorem first_start_returns_immediately_witness:
  "Stop \<notin> set [Start, Step 0 Raises, Start]
     \<and> run [Start, Step 0 Raises, Start] init_state = init_state"
proof -
  have h: "Stop \<notin> set [Start, Step 0 Raises, Start]"
    by simp
  from first_start_returns_immediately [of "[Start, Step 0 Raises, Start]"]
  have "Stop \<notin> set [Start, Step 0 Raises, Start]
      \<longrightarrow> run [Start, Step 0 Raises, Start] init_state = init_state"
    by blast
  with h show ?thesis by blast
qed

section \<open>Device errors\<close>

text \<open>
  C3, as the specification states it: when no input device is available, the open
  fails and the capture state is left as it was before Start, never Running. In the
  code the thread sets the flag before it opens the device and nothing resets it:
  starting from a cleared flag, the flag is set after the failed open, and a further
  Start returns at once.
\<close>

theorem failed_open_leaves_flag_set:
  "running (stop_voice_filtering init_state) = False
     \<and> running (run no_device (stop_voice_filtering init_state))
     \<and> threads (run no_device (stop_voice_filtering init_state)) = [Crashed DeviceError]
     \<and> start_voice_filtering (run no_device (stop_voice_filtering init_state))
         = run no_device (stop_voice_filtering init_state)"
  by (simp add: no_device_def init_state_def start_voice_filtering_def
      stop_voice_filtering_def set_pc_def)

text \<open>
  C3, amended: when Start is pressed with the flag cleared and the device open then
  fails, the error ends the capture thread before its loop: no stream is opened, no
  frame is read or played and the label is not changed; the flag, which the thread
  set before the open, stays set.
\<close>

theorem failed_open_ends_thread:
  "\<not> running s \<Longrightarrow>
     run [Start, Step (length (threads s)) d, Step (length (threads s)) Raises] s
       = s\<lparr>running := True, threads := threads s @ [Crashed DeviceError]\<rparr>"
  by (simp add: start_voice_filtering_def set_pc_def)

theorem failed_open_ends_thread_witness:
  "\<not> running stopping_state
     \<and> run [Start, Step 1 (Returns []), Step 1 Raises] stopping_state
         = \<lparr>running = True, status_label = StatusIdle, threads = [Read, Crashed DeviceError],
            opened = 1, closed = 0, played = []\<rparr>"
proof -
  have h: "\<not> running stopping_state"
    by (simp add: stopping_state_eq)
  from failed_open_ends_thread [OF h, of "Returns []"] h show ?thesis
    by (simp add: stopping_state_eq)
qed

text \<open>
  C4, as the specification states it: a device error inside the loop is caught and
  shown on the status label, the controller returns to Idle and the stream is closed.
  In the code a failing read ends the thread where it stands: the label still reads
  Running, the flag is still set and the stream was opened and never closed.
\<close>

theorem read_error_not_handled:
  "threads (run read_fails init_state) = [Crashed DeviceError]
     \<and> running (run read_fails init_state)
     \<and> status_label (run read_fails init_state) = StatusRunning
     \<and> opened (run read_fails init_state) = 1
     \<and> closed (run read_fails init_state) = 0"
  by (simp add: read_fails_def init_state_def start_voice_filtering_def
      stop_voice_filtering_def set_pc_def)

lemma crashed_stays:
  "i < length (threads s) \<Longrightarrow> threads s ! i = Crashed e \<Longrightarrow> run (map (Step i) ds) s = s"
  by (induction ds) simp_all

text \<open>
  C4, amended: a device error raised by the read or the playback of an iteration is
  not caught; it ends the capture thread it occurred in and nothing else: the flag,
  the label, the streams, the played frames and every other thread are as they were,
  and the ended thread takes no further step (so it closes nothing). The host process
  goes on.
\<close>

theorem device_error_ends_thread_only:
  assumes "i < length (threads s)"
    and "threads s ! i = Read \<or> threads s ! i = Play b"
  shows "step (Step i Raises) s = s\<lparr>threads := (threads s)[i := Crashed DeviceError]\<rparr>
    \<and> run (map (Step i) ds) (step (Step i Raises) s) = step (Step i Raises) s"
proof -
  from assms
  have a: "step (Step i Raises) s = s\<lparr>threads := (threads s)[i := Crashed DeviceError]\<rparr>"
    by (auto simp add: set_pc_def)
  from assms(1) have "threads (step (Step i Raises) s) ! i = Crashed DeviceError"
    and "i < length (threads (step (Step i Raises) s))"
    unfolding a by simp_all
  then have "run (map (Step i) ds) (step (Step i Raises) s) = step (Step i Raises) s"
    by (simp add: crashed_stays)
  with a show ?thesis by simp
qed

theorem device_error_ends_thread_only_witness:
  "step (Step 0 Raises) capturing_state
      = \<lparr>running = True, status_label = StatusRunning, threads = [Crashed DeviceError],
         opened = 1, closed = 0, played = []\<rparr>
   \<and> run (map (Step 0) [Returns [], Raises]) (step (Step 0 Raises) capturing_state)
      = step (Step 0 Raises) capturing_state"
proof -
  have h1: "0 < length (threads capturing_state)"
    and h2: "threads capturing_state ! 0 = Read \<or> threads capturing_state ! 0 = Play []"
    by (simp_all add: capturing_state_eq)
  from device_error_ends_thread_only [OF h1 h2, of "[Returns [], Raises]"] show ?thesis
    by (simp add: capturing_state_eq)
qed

section \<open>Cooperative stop\<close>

text \<open>
  C5, as the specification states it: after Stop the capture loop completes at most
  one further frame, then exits, closes the audio device and the state is Idle. In
  \<open>lost_stop\<close> the Stop is pressed after a Start whose thread has not run yet: the thread
  then sets the flag, enters the loop and plays two frames, with the stream open and
  the label reading Running. In \<open>close_fails\<close> the loop ends after the Stop but the
  closing calls raise: the thread ends with the stream never closed.
\<close>

theorem stop_lost_or_close_fails:
  "run lost_stop init_state
      = \<lparr>running = True, status_label = StatusRunning, threads = [Check],
         opened = 1, closed = 0, played = [silence, silence]\<rparr>
   \<and> run close_fails stopping_state
      = \<lparr>running = False, status_label = StatusIdle, threads = [Crashed DeviceError],
         opened = 1, closed = 0, played = [silence]\<rparr>"
  by (simp add: lost_stop_def close_fails_def stopping_state_eq init_state_def
      start_voice_filtering_def stop_voice_filtering_def set_pc_def process_audio_def)

lemma step_keeps_cleared:
  assumes "\<not> running s" and "Begin \<notin> set (threads s)" and "e \<noteq> Start"
  shows "\<not> running (step e s) \<and> Begin \<notin> set (threads (step e s))
    \<and> length (threads (step e s)) = length (threads s)"
proof (cases e)
  case Start
  with assms show ?thesis by simp
next
  case Stop
  with assms show ?thesis by (simp add: stop_voice_filtering_def)
next
  case (Step i d)
  show ?thesis
  proof (cases "i < length (threads s)")
    case False
    with Step assms show ?thesis by simp
  next
    case True
    with assms(2) have nb: "threads s ! i \<noteq> Begin"
      by (metis nth_mem)
    have sub: "\<And>p. p \<noteq> Begin \<Longrightarrow> Begin \<notin> set ((threads s)[i := p])"
      using assms(2) set_update_subset_insert [of "threads s" i] by fastforce
    from True nb assms(1) assms(2) sub Step show ?thesis
      by (cases "threads s ! i"; cases d) (simp_all add: set_pc_def)
  qed
qed

lemma filter_update:
  "i < length xs \<Longrightarrow>
     length (filter P (xs[i := p])) + (if P (xs ! i) then 1 else 0)
       = length (filter P xs) + (if P p then 1 else 0)"
proof (induction xs arbitrary: i)
  case Nil
  then show ?case by simp
next
  case (Cons x xs)
  show ?case
  proof (cases i)
    case 0
    then show ?thesis by simp
  next
    case (Suc j)
    with Cons.prems have "j < length xs" by simp
    from Cons.IH [OF this] Suc show ?thesis by simp
  qed
qed

lemma step_frames:
  assumes "\<not> running s" and "e \<noteq> Start"
  shows "length (played (step e s)) + length (filter mid_frame (threads (step e s)))
    \<le> length (played s) + length (filter mid_frame (threads s))"
proof (cases e)
  case Start
  with assms show ?thesis by simp
next
  case Stop
  then show ?thesis by (simp add: stop_voice_filtering_def)
next
  case (Step i d)
  show ?thesis
  proof (cases "i < length (threads s)")
    case False
    with Step show ?thesis by simp
  next
    case True
    have u: "length (filter mid_frame ((threads s)[i := p]))
        = length (filter mid_frame (threads s)) + (if mid_frame p then 1 else 0)
          - (if mid_frame (threads s ! i) then 1 else 0)" for p
      using filter_update [OF True, of mid_frame p] by (simp split: if_splits)
    have g: "mid_frame (threads s ! i) \<Longrightarrow> 1 \<le> length (filter mid_frame (threads s))"
      using filter_update [OF True, of mid_frame Open] by simp
    from True assms(1) Step g show ?thesis
      by (cases "threads s ! i"; cases d) (simp_all add: set_pc_def u)
  qed
qed

lemma run_keeps_cleared:
  "\<not> running s \<Longrightarrow> Begin \<notin> set (threads s) \<Longrightarrow> Start \<notin> set evs \<Longrightarrow>
     \<not> running (run evs s)
     \<and> length (played (run evs s)) + length (filter mid_frame (threads (run evs s)))
         \<le> length (played s) + length (filter mid_frame (threads s))"
proof (induction evs arbitrary: s)
  case Nil
  then show ?case by simp
next
  case (Cons e es)
  then have e: "e \<noteq> Start" and es: "Start \<notin> set es" by auto
  from Cons.prems e step_keeps_cleared [of s e]
  have a: "\<not> running (step e s)" and b: "Begin \<notin> set (threads (step e s))" by simp_all
  from Cons.IH [OF a b es] step_frames [OF Cons.prems(1) e] show ?case by simp
qed

lemma own_step:
  assumes "\<not> running s" and "i < length (threads s)" and "threads s ! i \<noteq> Begin"
    and "\<not> ended_by_error (threads s ! i)"
  shows "steps_to_exit (threads (step (Step i (Returns b)) s) ! i)
      = steps_to_exit (threads s ! i) - 1
    \<and> \<not> ended_by_error (threads (step (Step i (Returns b)) s) ! i)
    \<and> closed s + (if 2 \<le> steps_to_exit (threads s ! i) then 1 else 0)
        \<le> closed (step (Step i (Returns b)) s)
          + (if 2 \<le> steps_to_exit (threads (step (Step i (Returns b)) s) ! i) then 1 else 0)"
  using assms by (cases "threads s ! i") (simp_all add: set_pc_def)

lemma other_step:
  assumes "\<not> is_step_of i e" and "e \<noteq> Start" and "i < length (threads s)"
  shows "threads (step e s) ! i = threads s ! i \<and> closed s \<le> closed (step e s)"
proof (cases e)
  case Start
  with assms show ?thesis by simp
next
  case Stop
  then show ?thesis by (simp add: stop_voice_filtering_def)
next
  case (Step j d)
  with assms(1) have "i \<noteq> j" by simp
  with Step show ?thesis
    by (cases "threads s ! j"; cases d) (simp_all add: set_pc_def)
qed

lemma run_progress:
  "\<not> running s \<Longrightarrow> Begin \<notin> set (threads s) \<Longrightarrow> i < length (threads s) \<Longrightarrow>
   \<not> ended_by_error (threads s ! i) \<Longrightarrow> Start \<notin> set evs \<Longrightarrow> Step i Raises \<notin> set evs \<Longrightarrow>
     steps_to_exit (threads (run evs s) ! i) = steps_to_exit (threads s ! i) - steps_of i evs
     \<and> \<not> ended_by_error (threads (run evs s) ! i)
     \<and> threads (run evs s) ! i \<noteq> Begin
     \<and> closed s + (if 2 \<le> steps_to_exit (threads s ! i) then 1 else 0)
         \<le> closed (run evs s)
           + (if 2 \<le> steps_to_exit (threads (run evs s) ! i) then 1 else 0)"
proof (induction evs arbitrary: s)
  case Nil
  then show ?case by (simp add: steps_of_def) (metis nth_mem)
next
  case (Cons e es)
  then have e: "e \<noteq> Start" and es: "Start \<notin> set es"
    and r: "e \<noteq> Step i Raises" and rs: "Step i Raises \<notin> set es" by auto
  from Cons.prems(1,2) e step_keeps_cleared [of s e]
  have a: "\<not> running (step e s)" and b: "Begin \<notin> set (threads (step e s))"
    and c: "length (threads (step e s)) = length (threads s)" by simp_all
  from c Cons.prems(3) have i: "i < length (threads (step e s))" by simp
  from Cons.prems(2,3) have nb: "threads s ! i \<noteq> Begin" by (metis nth_mem)
  show ?case
  proof (cases "is_step_of i e")
    case True
    with r obtain x where x: "e = Step i (Returns x)"
      by (cases e; cases "case e of Step j d \<Rightarrow> d | _ \<Rightarrow> Raises") auto
    from own_step [OF Cons.prems(1) Cons.prems(3) nb Cons.prems(4), of x]
    have o1: "steps_to_exit (threads (step e s) ! i) = steps_to_exit (threads s ! i) - 1"
      and o2: "\<not> ended_by_error (threads (step e s) ! i)"
      and o3: "closed s + (if 2 \<le> steps_to_exit (threads s ! i) then 1 else 0)
        \<le> closed (step e s) + (if 2 \<le> steps_to_exit (threads (step e s) ! i) then 1 else 0)"
      unfolding x by blast+
    from True have k: "steps_of i (e # es) = Suc (steps_of i es)"
      by (simp add: steps_of_def)
    from Cons.IH [OF a b i o2 es rs]
    have ih1: "steps_to_exit (threads (run es (step e s)) ! i)
        = steps_to_exit (threads (step e s) ! i) - steps_of i es"
      and ih2: "\<not> ended_by_error (threads (run es (step e s)) ! i)"
      and ih3: "threads (run es (step e s)) ! i \<noteq> Begin"
      and ih4: "closed (step e s)
          + (if 2 \<le> steps_to_exit (threads (step e s) ! i) then 1 else 0)
        \<le> closed (run es (step e s))
          + (if 2 \<le> steps_to_exit (threads (run es (step e s)) ! i) then 1 else 0)"
      by blast+
    from ih1 o1 k have g1: "steps_to_exit (threads (run es (step e s)) ! i)
        = steps_to_exit (threads s ! i) - steps_of i (e # es)"
      by simp
    note g4 = order_trans [OF o3 ih4]
    from g1 ih2 ih3 g4 show ?thesis
      unfolding run.simps by blast
  next
    case False
    from other_step [OF False e Cons.prems(3)]
    have o1: "threads (step e s) ! i = threads s ! i" and o3: "closed s \<le> closed (step e s)"
      by simp_all
    from Cons.prems(4) o1 have o2: "\<not> ended_by_error (threads (step e s) ! i)" by simp
    from False have k: "steps_of i (e # es) = steps_of i es"
      by (simp add: steps_of_def)
    from Cons.IH [OF a b i o2 es rs]
    have ih1: "steps_to_exit (threads (run es (step e s)) ! i)
        = steps_to_exit (threads (step e s) ! i) - steps_of i es"
      and ih2: "\<not> ended_by_error (threads (run es (step e s)) ! i)"
      and ih3: "threads (run es (step e s)) ! i \<noteq> Begin"
      and ih4: "closed (step e s)
          + (if 2 \<le> steps_to_exit (threads (step e s) ! i) then 1 else 0)
        \<le> closed (run es (step e s))
          + (if 2 \<le> steps_to_exit (threads (run es (step e s)) ! i) then 1 else 0)"
      by blast+
    from ih1 o1 k have g1: "steps_to_exit (threads (run es (step e s)) ! i)
        = steps_to_exit (threads s ! i) - steps_of i (e # es)"
      by simp
    from o3 have "closed s + (if 2 \<le> steps_to_exit (threads s ! i) then 1 else 0)
        \<le> closed (step e s)
          + (if 2 \<le> steps_to_exit (threads (step e s) ! i) then 1 else 0)"
      unfolding o1 by simp
    note g4 = order_trans [OF this ih4]
    from g1 ih2 ih3 g4 show ?thesis
      unfolding run.simps by blast
  qed
qed

lemma exit_reached:
  "steps_to_exit p = 0 \<Longrightarrow> p \<noteq> Begin \<Longrightarrow> \<not> ended_by_error p \<Longrightarrow> p = Done"
  by (cases p) simp_all

lemma in_session_steps: "in_session p \<Longrightarrow> 3 \<le> steps_to_exit p \<and> \<not> ended_by_error p"
  by (cases p) simp_all

lemma list3: "length bs = 3 \<Longrightarrow> \<exists>a b c. bs = [a, b, c]"
  by (auto simp add: length_Suc_conv numeral_3_eq_3)

lemma list4: "length bs = 4 \<Longrightarrow> \<exists>a b c d. bs = [a, b, c, d]"
  by (auto simp add: length_Suc_conv numeral_eq_Suc)

lemma list5: "length bs = 5 \<Longrightarrow> \<exists>a b c d e. bs = [a, b, c, d, e]"
  by (auto simp add: length_Suc_conv numeral_eq_Suc)

lemma list6: "length bs = 6 \<Longrightarrow> \<exists>a b c d e f. bs = [a, b, c, d, e, f]"
  by (auto simp add: length_Suc_conv numeral_eq_Suc)

lemma solo_exit:
  assumes i: "i < length (threads s)" and l: "in_session (threads s ! i)"
    and n: "length bs = steps_to_exit (threads s ! i)"
  shows "run (map (\<lambda>b. Step i (Returns b)) bs) (stop_voice_filtering s)
      = s\<lparr>running := False, status_label := StatusIdle, threads := (threads s)[i := Done],
           opened := opened s + (if threads s ! i = Open then 1 else 0),
           closed := closed s + 1,
           played := played s @ frames_after_stop (threads s ! i) bs\<rparr>
    \<and> length (frames_after_stop (threads s ! i) bs) \<le> 1"
proof (cases "threads s ! i")
  case Open
  with n obtain a b c d e where "bs = [a, b, c, d, e]"
    using list5 by fastforce
  with i Open show ?thesis
    by (simp add: stop_voice_filtering_def set_pc_def)
next
  case Label
  with n obtain a b c d where "bs = [a, b, c, d]"
    using list4 by fastforce
  with i Label show ?thesis
    by (simp add: stop_voice_filtering_def set_pc_def)
next
  case Check
  with n obtain a b c where "bs = [a, b, c]"
    using list3 by fastforce
  with i Check show ?thesis
    by (simp add: stop_voice_filtering_def set_pc_def)
next
  case Read
  with n obtain a b c d e f where "bs = [a, b, c, d, e, f]"
    using list6 by fastforce
  with i Read show ?thesis
    by (simp add: stop_voice_filtering_def set_pc_def)
next
  case (Filter x)
  with n obtain a b c d e where "bs = [a, b, c, d, e]"
    using list5 by fastforce
  with i Filter show ?thesis
    by (simp add: stop_voice_filtering_def set_pc_def)
next
  case (Play x)
  with n obtain a b c d where "bs = [a, b, c, d]"
    using list4 by fastforce
  with i Play show ?thesis
    by (simp add: stop_voice_filtering_def set_pc_def)
qed (use l in simp_all)

text \<open>
  C5, amended: Stop is cooperative. Stop clears the flag and sets the label; a thread
  in a session (it has run its first statement and has not left the loop) reads the
  flag at the loop test alone, never in the middle of a frame. Running on by itself
  with library calls that succeed, it completes at most the frame it is working on,
  leaves the loop, closes the stream and sets the label to Idle, with the flag
  cleared, within \<open>steps_to_exit\<close> steps of its own. Under every schedule in which no further Start is pressed, when no thread stood
  before its first statement at the Stop, the flag stays cleared and no more frames
  are played in all than there were threads working on one; and a thread whose own
  library calls succeed has returned, its stream closed, once it took
  \<open>steps_to_exit\<close> steps, however the other threads' steps and further Stops are
  interleaved.
\<close>

theorem stop_is_cooperative:
  assumes i: "i < length (threads s)" and l: "in_session (threads s ! i)"
    and n: "length bs = steps_to_exit (threads s ! i)"
  shows "run (map (\<lambda>b. Step i (Returns b)) bs) (stop_voice_filtering s)
      = s\<lparr>running := False, status_label := StatusIdle, threads := (threads s)[i := Done],
           opened := opened s + (if threads s ! i = Open then 1 else 0),
           closed := closed s + 1,
           played := played s @ frames_after_stop (threads s ! i) bs\<rparr>
    \<and> length (frames_after_stop (threads s ! i) bs) \<le> 1
    \<and> (Start \<notin> set evs \<and> Begin \<notin> set (threads s) \<longrightarrow>
         \<not> running (run evs (stop_voice_filtering s))
         \<and> length (played (run evs (stop_voice_filtering s)))
             \<le> length (played s) + length (filter mid_frame (threads s)))
    \<and> (Start \<notin> set evs \<and> Begin \<notin> set (threads s) \<and> Step i Raises \<notin> set evs
         \<and> steps_to_exit (threads s ! i) \<le> steps_of i evs \<longrightarrow>
         threads (run evs (stop_voice_filtering s)) ! i = Done
         \<and> closed s < closed (run evs (stop_voice_filtering s)))"
proof -
  let ?s = "stop_voice_filtering s"
  have t: "threads ?s = threads s" and c: "closed ?s = closed s"
    and p: "played ?s = played s" and r: "\<not> running ?s"
    by (simp_all add: stop_voice_filtering_def)
  from in_session_steps [OF l]
  have three: "3 \<le> steps_to_exit (threads s ! i)" and ne: "\<not> ended_by_error (threads s ! i)"
    by simp_all
  have inter: "Start \<notin> set evs \<and> Begin \<notin> set (threads s) \<longrightarrow>
         \<not> running (run evs ?s)
         \<and> length (played (run evs ?s))
             \<le> length (played s) + length (filter mid_frame (threads s))"
  proof
    assume h: "Start \<notin> set evs \<and> Begin \<notin> set (threads s)"
    with run_keeps_cleared [of ?s evs] r t p show "\<not> running (run evs ?s)
         \<and> length (played (run evs ?s))
             \<le> length (played s) + length (filter mid_frame (threads s))"
      by simp
  qed
  have prog: "Start \<notin> set evs \<and> Begin \<notin> set (threads s) \<and> Step i Raises \<notin> set evs
         \<and> steps_to_exit (threads s ! i) \<le> steps_of i evs \<longrightarrow>
         threads (run evs ?s) ! i = Done \<and> closed s < closed (run evs ?s)"
  proof
    assume h: "Start \<notin> set evs \<and> Begin \<notin> set (threads s) \<and> Step i Raises \<notin> set evs
         \<and> steps_to_exit (threads s ! i) \<le> steps_of i evs"
    have "steps_to_exit (threads (run evs ?s) ! i)
          = steps_to_exit (threads ?s ! i) - steps_of i evs
       \<and> \<not> ended_by_error (threads (run evs ?s) ! i)
       \<and> threads (run evs ?s) ! i \<noteq> Begin
       \<and> closed ?s + (if 2 \<le> steps_to_exit (threads ?s ! i) then 1 else 0)
           \<le> closed (run evs ?s)
             + (if 2 \<le> steps_to_exit (threads (run evs ?s) ! i) then 1 else 0)"
      by (rule run_progress) (use h r t i ne in simp_all)
    then have z0: "steps_to_exit (threads (run evs ?s) ! i)
          = steps_to_exit (threads s ! i) - steps_of i evs"
      and a: "\<not> ended_by_error (threads (run evs ?s) ! i)"
      and b: "threads (run evs ?s) ! i \<noteq> Begin"
      and m: "closed s + (if 2 \<le> steps_to_exit (threads s ! i) then 1 else 0)
         \<le> closed (run evs ?s)
           + (if 2 \<le> steps_to_exit (threads (run evs ?s) ! i) then 1 else 0)"
      unfolding t c by blast+
    from z0 h have z: "steps_to_exit (threads (run evs ?s) ! i) = 0" by simp
    from exit_reached [OF z b a] have d: "threads (run evs ?s) ! i = Done" .
    from three have "2 \<le> steps_to_exit (threads s ! i)" by simp
    with m z have "closed s < closed (run evs ?s)" by simp
    with d show "threads (run evs ?s) ! i = Done \<and> closed s < closed (run evs ?s)" by simp
  qed
  from solo_exit [OF i l n] inter prog show ?thesis by blast
qed

theorem stop_is_cooperative_witness:
  "run (map (\<lambda>b. Step 0 (Returns b)) [silence, [], [], [], [], []])
        (stop_voice_filtering capturing_state)
      = \<lparr>running = False, status_label = StatusIdle, threads = [Done],
         opened = 1, closed = 1, played = [silence]\<rparr>
   \<and> run (map (\<lambda>b. Step 0 (Returns b)) [[], [], [], []])
        (stop_voice_filtering labelling_state)
      = \<lparr>running = False, status_label = StatusIdle, threads = [Done],
         opened = 1, closed = 1, played = []\<rparr>
   \<and> \<not> running (run [Step 0 (Returns silence), Step 0 (Returns []), Stop,
         Step 0 (Returns []), Step 0 (Returns []), Step 0 (Returns []), Step 0 (Returns [])]
         (stop_voice_filtering capturing_state))
   \<and> threads (run [Step 0 (Returns silence), Step 0 (Returns []), Stop,
         Step 0 (Returns []), Step 0 (Returns []), Step 0 (Returns []), Step 0 (Returns [])]
         (stop_voice_filtering capturing_state)) ! 0 = Done
   \<and> closed capturing_state < closed (run [Step 0 (Returns silence), Step 0 (Returns []), Stop,
         Step 0 (Returns []), Step 0 (Returns []), Step 0 (Returns []), Step 0 (Returns [])]
         (stop_voice_filtering capturing_state))"
proof -
  let ?evs = "[Step 0 (Returns silence), Step 0 (Returns []), Stop,
         Step 0 (Returns []), Step 0 (Returns []), Step 0 (Returns []), Step 0 (Returns [])]"
  have h1: "0 < length (threads capturing_state)"
    and h2: "in_session (threads capturing_state ! 0)"
    and h3: "length [silence, [], [], [], [], []] = steps_to_exit (threads capturing_state ! 0)"
    and h4: "Start \<notin> set ?evs \<and> Begin \<notin> set (threads capturing_state)
       \<and> Step 0 Raises \<notin> set ?evs
       \<and> steps_to_exit (threads capturing_state ! 0) \<le> steps_of 0 ?evs"
    by (simp_all add: capturing_state_eq steps_of_def)
  have k1: "0 < length (threads labelling_state)"
    and k2: "in_session (threads labelling_state ! 0)"
    and k3: "length [[], [], [], [] :: bytes] = steps_to_exit (threads labelling_state ! 0)"
    by (simp_all add: labelling_state_eq)
  from stop_is_cooperative [OF h1 h2 h3, of ?evs] h4
  have a: "run (map (\<lambda>b. Step 0 (Returns b)) [silence, [], [], [], [], []])
        (stop_voice_filtering capturing_state)
      = capturing_state\<lparr>running := False, status_label := StatusIdle,
           threads := (threads capturing_state)[0 := Done],
           opened := opened capturing_state + (if threads capturing_state ! 0 = Open then 1 else 0),
           closed := closed capturing_state + 1,
           played := played capturing_state
             @ frames_after_stop (threads capturing_state ! 0) [silence, [], [], [], [], []]\<rparr>"
    and b: "\<not> running (run ?evs (stop_voice_filtering capturing_state))"
    and c: "threads (run ?evs (stop_voice_filtering capturing_state)) ! 0 = Done"
    and d: "closed capturing_state < closed (run ?evs (stop_voice_filtering capturing_state))"
    by blast+
  from stop_is_cooperative [OF k1 k2 k3, of "[]"]
  have e: "run (map (\<lambda>b. Step 0 (Returns b)) [[], [], [], []])
        (stop_voice_filtering labelling_state)
      = labelling_state\<lparr>running := False, status_label := StatusIdle,
           threads := (threads labelling_state)[0 := Done],
           opened := opened labelling_state + (if threads labelling_state ! 0 = Open then 1 else 0),
           closed := closed labelling_state + 1,
           played := played labelling_state
             @ frames_after_stop (threads labelling_state ! 0) [[], [], [], []]\<rparr>"
    by blast
  from a have a': "run (map (\<lambda>b. Step 0 (Returns b)) [silence, [], [], [], [], []])
        (stop_voice_filtering capturing_state)
      = \<lparr>running = False, status_label = StatusIdle, threads = [Done],
         opened = 1, closed = 1, played = [silence]\<rparr>"
    by (simp add: capturing_state_eq process_audio_def)
  from e have e': "run (map (\<lambda>b. Step 0 (Returns b)) [[], [], [], []])
        (stop_voice_filtering labelling_state)
      = \<lparr>running = False, status_label = StatusIdle, threads = [Done],
         opened = 1, closed = 1, played = []\<rparr>"
    by (simp add: labelling_state_eq)
  from a' e' b c d show ?thesis by blast
qed

section \<open>Properties of the protobuf wrapping\<close>

text \<open>
  C10, as the claim states it: every int that is not a bool and lies above 2147483647
  or below -2147483648 is packed as an Int64Value. The int 2^63 lies above 2147483647
  and is handed to \<open>Int64Value\<close>, whose constructor raises \<open>ValueError\<close>: nothing is
  packed.
\<close>

theorem int_beyond_int64_raises:
  "(9223372036854775808 :: int) > 2147483647
     \<and> isinstance (PyInt 9223372036854775808) TBool = False
     \<and> create_protobuf_any_value float32_unused (PyInt 9223372036854775808) = Inl ValueError
     \<and> is_Int64Value (packed (create_protobuf_any_value float32_unused
           (PyInt 9223372036854775808))) = False"
  by (simp add: create_protobuf_any_value_def isinstance_def new_Int64Value_def)

text \<open>
  C10, amended: \<open>create_protobuf_any_value\<close> tests for bool before int, so every bool is
  packed as a BoolValue although it is an instance of int. An int that is not a bool
  and lies in the int64 range is packed as an Int64Value if and only if it is above
  2147483647 or below -2147483648, and as an Int32Value otherwise; an int outside the
  int64 range raises \<open>ValueError\<close> from the \<open>Int64Value\<close> constructor. A value that is
  neither bool, int, float nor str raises \<open>ValueError\<close>.
\<close>

theorem create_protobuf_any_value_dispatch:
  "isinstance (PyBool b) TInt
     \<and> create_protobuf_any_value float32 (PyBool b) = Inr (Any (Some (BoolValue b)))
     \<and> create_protobuf_any_value float32 (PyInt n) =
         (if n > 2147483647 \<or> n < - 2147483648
          then (if - 9223372036854775808 \<le> n \<and> n \<le> 9223372036854775807
                then Inr (Any (Some (Int64Value n))) else Inl ValueError)
          else Inr (Any (Some (Int32Value n))))
     \<and> (is_Int64Value (packed (create_protobuf_any_value float32 (PyInt n)))
          \<longleftrightarrow> ((n > 2147483647 \<or> n < - 2147483648)
                \<and> - 9223372036854775808 \<le> n \<and> n \<le> 9223372036854775807))
     \<and> (is_Int32Value (packed (create_protobuf_any_value float32 (PyInt n)))
          \<longleftrightarrow> (- 2147483648 \<le> n \<and> n \<le> 2147483647))
     \<and> (\<not> isinstance v TBool \<and> \<not> isinstance v TInt \<and> \<not> isinstance v TFloat
          \<and> \<not> isinstance v TStr
         \<longrightarrow> create_protobuf_any_value float32 v = Inl ValueError)"
  by (auto simp add: create_protobuf_any_value_def isinstance_def new_Int64Value_def
      new_Int32Value_def)

theorem create_protobuf_any_value_dispatch_witness:
  "create_protobuf_any_value float32_unused (PyBool True) = Inr (Any (Some (BoolValue True)))
     \<and> create_protobuf_any_value float32_unused (PyInt 2147483647)
         = Inr (Any (Some (Int32Value 2147483647)))
     \<and> create_protobuf_any_value float32_unused (PyInt 2147483648)
         = Inr (Any (Some (Int64Value 2147483648)))
     \<and> create_protobuf_any_value float32_unused (PyInt (- 2147483648))
         = Inr (Any (Some (Int32Value (- 2147483648))))
     \<and> create_protobuf_any_value float32_unused (PyInt (- 2147483649))
         = Inr (Any (Some (Int64Value (- 2147483649))))
     \<and> create_protobuf_any_value float32_unused (PyInt 9223372036854775807)
         = Inr (Any (Some (Int64Value 9223372036854775807)))
     \<and> create_protobuf_any_value float32_unused (PyInt (- 9223372036854775809))
         = Inl ValueError
     \<and> create_protobuf_any_value float32_unused PyNone = Inl ValueError"
  using create_protobuf_any_value_dispatch [of True float32_unused 2147483647 PyNone]
    create_protobuf_any_value_dispatch [of True float32_unused 2147483648 PyNone]
    create_protobuf_any_value_dispatch [of True float32_unused "- 2147483648" PyNone]
    create_protobuf_any_value_dispatch [of True float32_unused "- 2147483649" PyNone]
    create_protobuf_any_value_dispatch [of True float32_unused 9223372036854775807 PyNone]
    create_protobuf_any_value_dispatch [of True float32_unused "- 9223372036854775809" PyNone]
  by (simp add: isinstance_def)

end
